theory Spec2Isabelle
  imports Main
begin

section \<open>Java scope finder: the data model\<close>

text \<open>
  A Tree-sitter node as \<^verbatim>\<open>java_scope_finder.py\<close> reads it: its grammar label
  \<^verbatim>\<open>node.type\<close>, the points \<^verbatim>\<open>node.start_point\<close> and \<^verbatim>\<open>node.end_point\<close>
  (pairs of a 0-based row and a column) and the ordered \<^verbatim>\<open>node.children\<close>.
  Rows are Python integers, so they are \<^typ>\<open>int\<close> here; that a parser only
  produces rows from 0 upwards is a hypothesis where a statement needs it.
\<close>

datatype node = Node (type: string) (start_point: "int \<times> int") (end_point: "int \<times> int")
  (children: "node list")

text \<open>
  The dictionary \<^verbatim>\<open>smallest_scope\<close> with its three keys; each value is either
  \<^verbatim>\<open>None\<close> or a value copied from a node.
\<close>

record scope =
  scope_type :: "string option"
  start_line :: "int option"
  end_line :: "int option"

text \<open>
  The exceptions that can arise inside the resolver: \<^verbatim>\<open>TypeError\<close> from subtracting
  with a \<^verbatim>\<open>None\<close> operand, and \<^verbatim>\<open>RecursionError\<close> from the interpreter when the
  calls nest deeper than it allows.
\<close>

datatype error = TypeError | RecursionError

section \<open>The resolver\<close>

text \<open>\<^verbatim>\<open>node.start_point[0] <= line_number - 1 <= node.end_point[0]\<close>\<close>

definition node_contains_line :: "node \<Rightarrow> int \<Rightarrow> bool" where
  "node_contains_line n line_number \<longleftrightarrow>
     fst (start_point n) \<le> line_number - 1 \<and> line_number - 1 \<le> fst (end_point n)"

text \<open>The dictionary \<^verbatim>\<open>current_scope\<close> built from the node at hand.\<close>

definition current_scope :: "node \<Rightarrow> scope" where
  "current_scope n =
     \<lparr>scope_type = Some (type n),
      start_line = Some (fst (start_point n) + 1),
      end_line = Some (fst (end_point n) + 1)\<rparr>"

text \<open>
  The assignment guarded by the test of lines 95 to 97. The right operand of \<^verbatim>\<open>or\<close>
  is evaluated only when \<^verbatim>\<open>smallest_scope['start_line']\<close> is not \<^verbatim>\<open>None\<close>; it
  subtracts the two stored lines, which raises \<^verbatim>\<open>TypeError\<close> when the stored end
  line is \<^verbatim>\<open>None\<close>. The two lines of \<^verbatim>\<open>current_scope\<close> are the integers just
  computed from the node.
\<close>

definition update_smallest :: "node \<Rightarrow> scope \<Rightarrow> error + scope" where
  "update_smallest n smallest_scope =
     (case start_line smallest_scope of
        None \<Rightarrow> Inr (current_scope n)
      | Some s \<Rightarrow>
          (case end_line smallest_scope of
             None \<Rightarrow> Inl TypeError
           | Some e \<Rightarrow>
               if (fst (end_point n) + 1) - (fst (start_point n) + 1) < e - s
               then Inr (current_scope n)
               else Inr smallest_scope))"

text \<open>
  \<^verbatim>\<open>find_smallest_enclosing_scope\<close> as its text reads, every call granted, with the
  loop over \<^verbatim>\<open>node.children\<close> as the second function of the mutual recursion. An
  exception leaves the loop and the call. The next section adds the interpreter's
  limit on nested calls.
\<close>

fun find_smallest_enclosing_scope :: "node \<Rightarrow> int \<Rightarrow> scope \<Rightarrow> error + scope"
  and for_children :: "node list \<Rightarrow> int \<Rightarrow> scope \<Rightarrow> error + scope" where
  "find_smallest_enclosing_scope (Node ty sp ep cs) line_number smallest_scope =
     (if node_contains_line (Node ty sp ep cs) line_number then
        (case update_smallest (Node ty sp ep cs) smallest_scope of
           Inl e \<Rightarrow> Inl e
         | Inr smallest' \<Rightarrow> for_children cs line_number smallest')
      else Inr smallest_scope)"
| "for_children [] line_number smallest_scope = Inr smallest_scope"
| "for_children (child # rest) line_number smallest_scope =
     (case find_smallest_enclosing_scope child line_number smallest_scope of
        Inl e \<Rightarrow> Inl e
      | Inr smallest' \<Rightarrow> for_children rest line_number smallest')"

text \<open>The initial dictionary of \<^verbatim>\<open>find_scope\<close>: every value \<^verbatim>\<open>None\<close>.\<close>

definition no_scope :: scope where
  "no_scope = \<lparr>scope_type = None, start_line = None, end_line = None\<rparr>"

text \<open>\<^verbatim>\<open>find_scope\<close>, applied to the root node of the parsed tree.\<close>

definition find_scope :: "node \<Rightarrow> int \<Rightarrow> error + scope" where
  "find_scope root_node line_number =
     find_smallest_enclosing_scope root_node line_number no_scope"

section \<open>The resolver under the interpreter's limit on nested calls\<close>

text \<open>
  The two functions above follow the text of the resolver with every call granted.
  The interpreter grants a call of a Python function only while the number of nested
  calls is below its recursion limit, and raises \<^verbatim>\<open>RecursionError\<close> at the call
  otherwise. The resolver makes one nested call for each node it descends into, and
  inside each of them one call of \<^verbatim>\<open>node_contains_line\<close>; nothing in the program
  catches the exception.

  In the functions below the first argument is the number of nested calls the
  interpreter still grants at this point. A call of
  \<^verbatim>\<open>find_smallest_enclosing_scope\<close> with none left raises; one that is granted leaves
  one fewer to the calls made inside it, first of them \<^verbatim>\<open>node_contains_line\<close>.
\<close>

fun find_smallest_enclosing_scope_within ::
    "nat \<Rightarrow> node \<Rightarrow> int \<Rightarrow> scope \<Rightarrow> error + scope"
  and for_children_within :: "nat \<Rightarrow> node list \<Rightarrow> int \<Rightarrow> scope \<Rightarrow> error + scope" where
  "find_smallest_enclosing_scope_within 0 n line_number smallest_scope = Inl RecursionError"
| "find_smallest_enclosing_scope_within (Suc k) (Node ty sp ep cs) line_number smallest_scope =
     (if k = 0 then Inl RecursionError
      else if node_contains_line (Node ty sp ep cs) line_number then
        (case update_smallest (Node ty sp ep cs) smallest_scope of
           Inl e \<Rightarrow> Inl e
         | Inr smallest' \<Rightarrow> for_children_within k cs line_number smallest')
      else Inr smallest_scope)"
| "for_children_within k [] line_number smallest_scope = Inr smallest_scope"
| "for_children_within k (child # rest) line_number smallest_scope =
     (case find_smallest_enclosing_scope_within k child line_number smallest_scope of
        Inl e \<Rightarrow> Inl e
      | Inr smallest' \<Rightarrow> for_children_within k rest line_number smallest')"

text \<open>
  \<^verbatim>\<open>find_scope\<close> as the interpreter runs it, with the number of nested calls still
  granted inside the call of \<^verbatim>\<open>find_scope\<close> itself.
\<close>

definition find_scope_within :: "nat \<Rightarrow> node \<Rightarrow> int \<Rightarrow> error + scope" where
  "find_scope_within frames root_node line_number =
     find_smallest_enclosing_scope_within frames root_node line_number no_scope"

section \<open>Vocabulary of the properties\<close>

text \<open>The width of a node's span of lines, \<^verbatim>\<open>end_line - start_line\<close>.\<close>

definition span_width :: "node \<Rightarrow> int" where
  "span_width n = (fst (end_point n) + 1) - (fst (start_point n) + 1)"

text \<open>Every node of a tree in depth-first pre-order: a node, then its children left to right.\<close>

fun preorder :: "node \<Rightarrow> node list" where
  "preorder (Node ty sp ep cs) = Node ty sp ep cs # concat (map preorder cs)"

text \<open>The nodes of the tree whose span contains the line, in pre-order.\<close>

definition containing_nodes :: "node \<Rightarrow> int \<Rightarrow> node list" where
  "containing_nodes t line_number =
     filter (\<lambda>n. node_contains_line n line_number) (preorder t)"

text \<open>
  The nodes the resolver reaches, in the order it reaches them: a node that contains
  the line, then what is reached below each child in turn; nothing below a node that
  does not contain the line.
\<close>

fun visited :: "node \<Rightarrow> int \<Rightarrow> node list" where
  "visited (Node ty sp ep cs) line_number =
     (if node_contains_line (Node ty sp ep cs) line_number
      then Node ty sp ep cs # concat (map (\<lambda>c. visited c line_number) cs)
      else [])"

text \<open>The nesting invariant: the span of every child lies within the span of its parent.\<close>

fun nested :: "node \<Rightarrow> bool" where
  "nested (Node ty sp ep cs) \<longleftrightarrow>
     (\<forall>c \<in> set cs. fst sp + 1 \<le> fst (start_point c) + 1 \<and>
                    fst (end_point c) + 1 \<le> fst ep + 1 \<and> nested c)"

text \<open>A well-formed tree: nesting, and \<^verbatim>\<open>start_line <= end_line\<close> at every node.\<close>

definition well_formed :: "node \<Rightarrow> bool" where
  "well_formed t \<longleftrightarrow>
     nested t \<and>
     (\<forall>n \<in> set (preorder t). fst (start_point n) + 1 \<le> fst (end_point n) + 1)"

text \<open>What a parser guarantees about rows: none is negative.\<close>

definition rows_from_zero :: "node \<Rightarrow> bool" where
  "rows_from_zero t \<longleftrightarrow>
     (\<forall>n \<in> set (preorder t). 0 \<le> fst (start_point n) \<and> 0 \<le> fst (end_point n))"

text \<open>
  The number of nested calls the resolver needs below \<^verbatim>\<open>find_scope\<close>: two at a node
  (the call for the node and, inside it, \<^verbatim>\<open>node_contains_line\<close>), and one more than
  its children need at a node that contains the line and has children.
\<close>

fun frames_needed :: "node \<Rightarrow> int \<Rightarrow> nat"
  and frames_for_children :: "node list \<Rightarrow> int \<Rightarrow> nat" where
  "frames_needed (Node ty sp ep cs) line_number =
     (if node_contains_line (Node ty sp ep cs) line_number
      then Suc (max 1 (frames_for_children cs line_number))
      else 2)"
| "frames_for_children [] line_number = 0"
| "frames_for_children (child # rest) line_number =
     max (frames_needed child line_number) (frames_for_children rest line_number)"

text \<open>
  The exhaustive search of the pruning-equivalence property: the resolver with the
  loop over the children moved out of the containment test, so that every node of the
  tree is examined, in pre-order, and the same update is applied at each node that
  contains the line.
\<close>

fun exhaustive_search :: "node \<Rightarrow> int \<Rightarrow> scope \<Rightarrow> error + scope"
  and exhaustive_children :: "node list \<Rightarrow> int \<Rightarrow> scope \<Rightarrow> error + scope" where
  "exhaustive_search (Node ty sp ep cs) line_number smallest_scope =
     (case (if node_contains_line (Node ty sp ep cs) line_number
            then update_smallest (Node ty sp ep cs) smallest_scope
            else Inr smallest_scope) of
        Inl e \<Rightarrow> Inl e
      | Inr smallest' \<Rightarrow> exhaustive_children cs line_number smallest')"
| "exhaustive_children [] line_number smallest_scope = Inr smallest_scope"
| "exhaustive_children (child # rest) line_number smallest_scope =
     (case exhaustive_search child line_number smallest_scope of
        Inl e \<Rightarrow> Inl e
      | Inr smallest' \<Rightarrow> exhaustive_children rest line_number smallest')"

definition exhaustive_scope :: "node \<Rightarrow> int \<Rightarrow> error + scope" where
  "exhaustive_scope root_node line_number =
     exhaustive_search root_node line_number no_scope"

text \<open>The update applied to a list of nodes in turn, stopping at an exception.\<close>

fun update_all :: "node list \<Rightarrow> scope \<Rightarrow> error + scope" where
  "update_all [] smallest_scope = Inr smallest_scope"
| "update_all (n # ns) smallest_scope =
     (case update_smallest n smallest_scope of
        Inl e \<Rightarrow> Inl e
      | Inr smallest' \<Rightarrow> update_all ns smallest')"

text \<open>A result dictionary is coherent when its three values are all set or all \<^verbatim>\<open>None\<close>.\<close>

definition coherent :: "scope \<Rightarrow> bool" where
  "coherent s \<longleftrightarrow>
     (scope_type s = None \<and> start_line s = None \<and> end_line s = None) \<or>
     (scope_type s \<noteq> None \<and> start_line s \<noteq> None \<and> end_line s \<noteq> None)"

section \<open>The command-line program\<close>

text \<open>
  What the program prints, one constructor for each \<^verbatim>\<open>print\<close> of the source, with
  the values it formats into the text.
\<close>

datatype message =
    Error_parsing_code
  | Error_file_does_not_exist string
  | Error_cannot_read_file string
  | Error_line_number_not_positive
  | Error_line_number_exceeds int int
  | No_relevant_scope_found
  | Scope_type string
  | Start_line "int option"
  | End_line "int option"
  | Code_snippet
  | Snippet string

text \<open>
  How a call can end other than by returning: \<^verbatim>\<open>sys.exit(n)\<close>, or an exception that
  nothing catches. The interpreter ends with status \<^verbatim>\<open>n\<close> in the first case and with
  a traceback and status 1 in the second.
\<close>

datatype abort = SystemExit int | Uncaught

fun exit_status :: "abort \<Rightarrow> int" where
  "exit_status (SystemExit n) = n"
| "exit_status Uncaught = 1"

text \<open>
  The collaborators of one run. \<^verbatim>\<open>open_file\<close> is what the two \<^verbatim>\<open>open\<close> calls of
  \<^verbatim>\<open>read_file\<close> meet at a path: no such file (\<^verbatim>\<open>FileNotFoundError\<close>), another
  \<^verbatim>\<open>IOError\<close>, bytes that are not UTF-8 (\<^verbatim>\<open>UnicodeDecodeError\<close>, which
  \<^verbatim>\<open>read_file\<close> does not catch), or the bytes and the lines. \<^verbatim>\<open>get_language\<close> tells
  whether the grammar loads; \<^verbatim>\<open>get_parser\<close> is the parser, \<^verbatim>\<open>None\<close> when loading it
  raises; a parser maps the bytes to the root node of the tree, \<^verbatim>\<open>None\<close> when
  \<^verbatim>\<open>parser.parse\<close> raises. \<^verbatim>\<open>frames\<close> is the number of nested calls the
  interpreter still grants inside a function that \<^verbatim>\<open>main\<close> calls: the recursion
  limit less the calls that are open then. The functions \<^verbatim>\<open>main\<close> calls other than
  \<^verbatim>\<open>find_scope\<close> call no Python function of this program in turn.
\<close>

datatype file_outcome =
    Missing
  | Unreadable
  | Undecodable
  | Readable string "string list"

record environment =
  open_file :: "string \<Rightarrow> file_outcome"
  get_language :: bool
  get_parser :: "(string \<Rightarrow> node option) option"
  frames :: nat

definition parse_code ::
  "string \<Rightarrow> (string \<Rightarrow> node option) \<Rightarrow> message list \<times> (abort + node)" where
  "parse_code code parser =
     (case parser code of
        Some tree \<Rightarrow> ([], Inr tree)
      | None \<Rightarrow> ([Error_parsing_code], Inl (SystemExit 1)))"

definition read_file ::
  "environment \<Rightarrow> string \<Rightarrow> message list \<times> (abort + string \<times> string list)" where
  "read_file env file_path =
     (case open_file env file_path of
        Readable code lines \<Rightarrow> ([], Inr (code, lines))
      | Missing \<Rightarrow> ([Error_file_does_not_exist file_path], Inl (SystemExit 1))
      | Unreadable \<Rightarrow> ([Error_cannot_read_file file_path], Inl (SystemExit 1))
      | Undecodable \<Rightarrow> ([], Inl Uncaught))"

text \<open>Python's \<^verbatim>\<open>xs[a:b]\<close>: a negative index counts from the end, and both are clipped.\<close>

definition slice_index :: "int \<Rightarrow> int \<Rightarrow> int" where
  "slice_index n i = (if i < 0 then max (n + i) 0 else min i n)"

definition py_slice :: "'a list \<Rightarrow> int \<Rightarrow> int option \<Rightarrow> 'a list" where
  "py_slice xs a b =
     (let n = int (length xs);
          lo = slice_index n a;
          hi = (case b of None \<Rightarrow> n | Some b' \<Rightarrow> slice_index n b')
      in take (nat (hi - lo)) (drop (nat lo) xs))"

text \<open>
  \<^verbatim>\<open>display_result\<close>. With a type that is not \<^verbatim>\<open>None\<close> it prints four lines and then
  computes \<^verbatim>\<open>scope['start_line']-1\<close>, which raises if that value is \<^verbatim>\<open>None\<close>.
\<close>

definition display_result :: "scope \<Rightarrow> string list \<Rightarrow> message list \<times> (abort + unit)" where
  "display_result scope lines =
     (case scope_type scope of
        None \<Rightarrow> ([No_relevant_scope_found], Inr ())
      | Some ty \<Rightarrow>
          (case start_line scope of
             None \<Rightarrow>
               ([Scope_type ty, Start_line None, End_line (end_line scope), Code_snippet],
                Inl Uncaught)
           | Some s \<Rightarrow>
               ([Scope_type ty, Start_line (Some s), End_line (end_line scope), Code_snippet,
                 Snippet (concat (py_slice lines (s - 1) (end_line scope)))],
                Inr ())))"

definition validate_line_number :: "int \<Rightarrow> int \<Rightarrow> message list \<times> bool" where
  "validate_line_number line_number total_lines =
     (if line_number \<le> 0 then ([Error_line_number_not_positive], False)
      else if line_number > total_lines
        then ([Error_line_number_exceeds line_number total_lines], False)
      else ([], True))"

text \<open>
  One run of \<^verbatim>\<open>main\<close> on parsed arguments (\<^verbatim>\<open>lang_path\<close> is read and never used):
  the exit status, what was printed, and the calls \<^verbatim>\<open>main\<close> made, in order.
\<close>

datatype call =
    Call_read_file
  | Call_validate_line_number
  | Call_get_language
  | Call_get_parser
  | Call_parse_code
  | Call_find_scope
  | Call_display_result

record process =
  exit_code :: int
  printed :: "message list"
  calls :: "call list"

definition main :: "environment \<Rightarrow> string \<Rightarrow> int \<Rightarrow> process" where
  "main env file_path line_number =
     (case read_file env file_path of
        (out1, Inl x) \<Rightarrow>
          \<lparr>exit_code = exit_status x, printed = out1, calls = [Call_read_file]\<rparr>
      | (out1, Inr (code, lines)) \<Rightarrow>
          (case validate_line_number line_number (int (length lines)) of
             (out2, False) \<Rightarrow>
               \<lparr>exit_code = exit_status (SystemExit 1), printed = out1 @ out2,
                calls = [Call_read_file, Call_validate_line_number]\<rparr>
           | (out2, True) \<Rightarrow>
               if \<not> get_language env then
                 \<lparr>exit_code = exit_status Uncaught, printed = out1 @ out2,
                  calls = [Call_read_file, Call_validate_line_number, Call_get_language]\<rparr>
               else
                 (case get_parser env of
                    None \<Rightarrow>
                      \<lparr>exit_code = exit_status Uncaught, printed = out1 @ out2,
                       calls = [Call_read_file, Call_validate_line_number, Call_get_language,
                                Call_get_parser]\<rparr>
                  | Some parser \<Rightarrow>
                      (case parse_code code parser of
                         (out3, Inl x) \<Rightarrow>
                           \<lparr>exit_code = exit_status x, printed = out1 @ out2 @ out3,
                            calls = [Call_read_file, Call_validate_line_number,
                                     Call_get_language, Call_get_parser, Call_parse_code]\<rparr>
                       | (out3, Inr tree) \<Rightarrow>
                           (case find_scope_within (frames env) tree line_number of
                              Inl e \<Rightarrow>
                                \<lparr>exit_code = exit_status Uncaught, printed = out1 @ out2 @ out3,
                                 calls = [Call_read_file, Call_validate_line_number,
                                          Call_get_language, Call_get_parser, Call_parse_code,
                                          Call_find_scope]\<rparr>
                            | Inr scope \<Rightarrow>
                                (case display_result scope lines of
                                   (out4, Inl x) \<Rightarrow>
                                     \<lparr>exit_code = exit_status x,
                                      printed = out1 @ out2 @ out3 @ out4,
                                      calls = [Call_read_file, Call_validate_line_number,
                                               Call_get_language, Call_get_parser,
                                               Call_parse_code, Call_find_scope,
                                               Call_display_result]\<rparr>
                                 | (out4, Inr u) \<Rightarrow>
                                     \<lparr>exit_code = 0,
                                      printed = out1 @ out2 @ out3 @ out4,
                                      calls = [Call_read_file, Call_validate_line_number,
                                               Call_get_language, Call_get_parser,
                                               Call_parse_code, Call_find_scope,
                                               Call_display_result]\<rparr>))))))"

section \<open>Example inputs\<close>

text \<open>
  The scenario of the specification: a program on lines 1 to 20, a class on 2 to 19,
  a method on 5 to 10, an if statement on 7 to 9.
\<close>

definition example_tree :: node where
  "example_tree =
     Node ''program'' (0, 0) (19, 0)
       [Node ''class_declaration'' (1, 0) (18, 1)
          [Node ''method_declaration'' (4, 4) (9, 5)
             [Node ''if_statement'' (6, 8) (8, 9) []]]]"

text \<open>A block whose first statement covers the same lines as the block.\<close>

definition tie_tree :: node where
  "tie_tree =
     Node ''program'' (0, 0) (4, 0)
       [Node ''block'' (1, 0) (3, 1)
          [Node ''if_statement'' (1, 2) (3, 1) [],
           Node ''line_comment'' (3, 3) (3, 9) []]]"

text \<open>
  A tree that breaks the nesting invariant: the block on lines 20 to 30 has two
  children on line 5.
\<close>

definition ill_nested_tree :: node where
  "ill_nested_tree =
     Node ''program'' (0, 0) (9, 0)
       [Node ''block'' (19, 0) (29, 1)
          [Node ''expression_statement'' (4, 0) (4, 5) [],
           Node ''line_comment'' (4, 7) (4, 20) []]]"

text \<open>
  A file of 20 lines laid out as the example tree says (the lines without their
  terminators), and a run that reads it at one path and parses it to a given tree,
  under the default recursion limit of 1000 with the calls of the module, of
  \<^verbatim>\<open>main\<close> and of \<^verbatim>\<open>find_scope\<close> open.
\<close>

definition example_lines :: "string list" where
  "example_lines =
     [''// A'',
      ''class A {'',
      ''  int x;'',
      '''',
      ''  void m() {'',
      ''    x = 1;'',
      ''    if (x > 0) {'',
      ''      x = 2;'',
      ''    }'',
      ''  }'',
      '''', '''', '''', '''', '''', '''', '''', '''',
      ''}'',
      ''// end'']"

text \<open>
  A file of three lines whose second line holds an expression in \<^verbatim>\<open>depth\<close> pairs of
  parentheses: the tree nests that many nodes, all on row 1.
\<close>

fun parenthesized :: "nat \<Rightarrow> node" where
  "parenthesized 0 = Node ''identifier'' (1, 0) (1, 1) []"
| "parenthesized (Suc depth) =
     Node ''parenthesized_expression'' (1, 0) (1, 1) [parenthesized depth]"

definition deep_tree :: "nat \<Rightarrow> node" where
  "deep_tree depth = Node ''program'' (0, 0) (2, 0) [parenthesized depth]"

definition env_with :: "node \<Rightarrow> environment" where
  "env_with tree =
     \<lparr>open_file = (\<lambda>p. if p = ''A.java'' then Readable ''bytes'' example_lines else Missing),
      get_language = True,
      get_parser = Some (\<lambda>code. if code = ''bytes'' then Some tree else None),
      frames = 997\<rparr>"

section \<open>The resolver as a fold over the nodes it reaches\<close>

text \<open>
  The recursion of the resolver applies the update to the nodes it reaches, in the
  order it reaches them; from the initial dictionary that fold keeps the first node of
  least width.
\<close>

lemma update_all_append:
  "update_all (xs @ ys) s = (case update_all xs s of Inl e \<Rightarrow> Inl e | Inr s' \<Rightarrow> update_all ys s')"
  by (induction xs arbitrary: s) (auto split: sum.splits)

lemma find_is_update_all:
  "find_smallest_enclosing_scope t L s = update_all (visited t L) s"
  "for_children cs L s = update_all (concat (map (\<lambda>c. visited c L) cs)) s"
  by (induction t L s and cs L s rule: find_smallest_enclosing_scope_for_children.induct)
     (auto simp: update_all_append split: sum.splits)

lemma visited_Nil_iff: "visited t L = [] \<longleftrightarrow> \<not> node_contains_line t L"
  by (cases t) simp

lemma visited_contains: "n \<in> set (visited t L) \<Longrightarrow> node_contains_line n L"
  by (induction t L rule: visited.induct) (auto split: if_splits)

lemma visited_subset: "n \<in> set (visited t L) \<Longrightarrow> n \<in> set (preorder t)"
  by (induction t L rule: visited.induct) (auto split: if_splits)

lemma nested_not_contains:
  "nested t \<Longrightarrow> \<not> node_contains_line t L \<Longrightarrow> n \<in> set (preorder t) \<Longrightarrow> \<not> node_contains_line n L"
  by (induction t arbitrary: n rule: preorder.induct) (auto simp: node_contains_line_def)

lemma visited_filter:
  "nested t \<Longrightarrow> visited t L = containing_nodes t L"
proof (induction t rule: preorder.induct)
  case (1 ty sp ep cs)
  let ?n = "Node ty sp ep cs"
  show ?case
  proof (cases "node_contains_line ?n L")
    case True
    have eq: "map (\<lambda>c. visited c L) cs = map (\<lambda>c. filter (\<lambda>n. node_contains_line n L) (preorder c)) cs"
      using 1 by (auto simp: containing_nodes_def)
    show ?thesis using True
      by (simp add: containing_nodes_def filter_concat comp_def eq)
  next
    case False
    have "filter (\<lambda>n. node_contains_line n L) (preorder ?n) = []"
      using nested_not_contains [OF "1.prems" False] by (simp add: filter_empty_conv del: preorder.simps)
    then show ?thesis using False by (simp add: containing_nodes_def)
  qed
qed

lemma update_smallest_no_scope: "update_smallest n no_scope = Inr (current_scope n)"
  by (simp add: update_smallest_def no_scope_def)

lemma update_smallest_current:
  "update_smallest n (current_scope m) =
     Inr (if span_width n < span_width m then current_scope n else current_scope m)"
  by (simp add: update_smallest_def current_scope_def span_width_def)

lemma update_all_first_min:
  "xs \<noteq> [] \<Longrightarrow> \<exists>pre m post. xs = pre @ m # post \<and> update_all xs no_scope = Inr (current_scope m)
     \<and> (\<forall>p\<in>set pre. span_width m < span_width p) \<and> (\<forall>q\<in>set post. span_width m \<le> span_width q)"
proof (induction xs rule: rev_induct)
  case Nil
  then show ?case by simp
next
  case (snoc x xs)
  show ?case
  proof (cases "xs = []")
    case True
    have "[x] = [] @ x # []" "update_all [x] no_scope = Inr (current_scope x)"
      by (simp_all add: update_smallest_no_scope)
    then show ?thesis using True by fastforce
  next
    case False
    from snoc.IH [OF False] obtain pre m post where
      xs: "xs = pre @ m # post" and
      r: "update_all xs no_scope = Inr (current_scope m)" and
      before: "\<forall>p\<in>set pre. span_width m < span_width p" and
      after: "\<forall>q\<in>set post. span_width m \<le> span_width q"
      by blast
    have step: "update_all (xs @ [x]) no_scope =
        Inr (if span_width x < span_width m then current_scope x else current_scope m)"
      by (simp add: update_all_append r update_smallest_current)
    show ?thesis
    proof (cases "span_width x < span_width m")
      case True
      have "xs @ [x] = xs @ x # []" by simp
      moreover have "update_all (xs @ [x]) no_scope = Inr (current_scope x)"
        using step True by simp
      moreover have "\<forall>p\<in>set xs. span_width x < span_width p"
        using xs before after True by fastforce
      ultimately show ?thesis by fastforce
    next
      case False
      have "xs @ [x] = pre @ m # (post @ [x])" using xs by simp
      moreover have "update_all (xs @ [x]) no_scope = Inr (current_scope m)"
        using step False by simp
      moreover have "\<forall>q\<in>set (post @ [x]). span_width m \<le> span_width q"
        using after False by auto
      ultimately show ?thesis using before by blast
    qed
  qed
qed

lemma find_scope_outside:
  "\<not> node_contains_line t L \<Longrightarrow> find_scope t L = Inr no_scope"
  by (cases t) (simp add: find_scope_def)

lemma find_scope_inside:
  assumes "node_contains_line t L"
  shows "\<exists>pre m post. visited t L = pre @ m # post \<and> find_scope t L = Inr (current_scope m)
     \<and> (\<forall>p\<in>set pre. span_width m < span_width p) \<and> (\<forall>q\<in>set post. span_width m \<le> span_width q)"
proof -
  have "visited t L \<noteq> []" using assms by (simp add: visited_Nil_iff)
  from update_all_first_min [OF this] show ?thesis
    by (simp add: find_scope_def find_is_update_all)
qed

lemma find_scope_visited:
  assumes "node_contains_line t L"
  shows "\<exists>m\<in>set (visited t L). find_scope t L = Inr (current_scope m)
     \<and> (\<forall>n\<in>set (visited t L). span_width m \<le> span_width n)"
proof -
  from find_scope_inside [OF assms] obtain pre m post where
    v: "visited t L = pre @ m # post" and r: "find_scope t L = Inr (current_scope m)" and
    b: "\<forall>p\<in>set pre. span_width m < span_width p" and a: "\<forall>q\<in>set post. span_width m \<le> span_width q"
    by blast
  have "m \<in> set (visited t L)" using v by simp
  moreover have "\<forall>n\<in>set (visited t L). span_width m \<le> span_width n"
    using v a b by fastforce
  ultimately show ?thesis using r by blast
qed

lemma current_scope_not_none: "current_scope m \<noteq> no_scope"
  by (simp add: current_scope_def no_scope_def)

lemma preorder_self: "t \<in> set (preorder t)"
  by (cases t) simp

lemma preorder_trans:
  "m \<in> set (preorder t) \<Longrightarrow> d \<in> set (preorder m) \<Longrightarrow> d \<in> set (preorder t)"
  by (induction t rule: preorder.induct) auto

lemma containing_nodes_set:
  "set (containing_nodes t L) = {n \<in> set (preorder t). node_contains_line n L}"
  by (simp add: containing_nodes_def)

text \<open>
  Claim C1 (minimality). In a tree that satisfies the nesting invariant, for a line
  inside the span of the root, \<^verbatim>\<open>find_scope\<close> returns the dictionary of a node of the
  tree that contains the line and whose width \<^verbatim>\<open>end_line - start_line\<close> is the least
  among all nodes of the tree that contain the line. In particular, below any node with
  the returned dictionary there is no node containing the line with a smaller width.
\<close>

theorem minimality:
  assumes "nested t" and "node_contains_line t L"
  shows "\<exists>m\<in>set (preorder t). find_scope t L = Inr (current_scope m) \<and> node_contains_line m L \<and>
           (\<forall>n\<in>set (preorder t). node_contains_line n L \<longrightarrow> span_width m \<le> span_width n) \<and>
           (\<forall>m'\<in>set (preorder t). find_scope t L = Inr (current_scope m') \<longrightarrow>
              (\<forall>d\<in>set (preorder m'). node_contains_line d L \<longrightarrow> \<not> span_width d < span_width m'))"
proof -
  from find_scope_visited [OF assms(2)] obtain m where
    m: "m \<in> set (visited t L)" and r: "find_scope t L = Inr (current_scope m)" and
    least: "\<forall>n\<in>set (visited t L). span_width m \<le> span_width n"
    by blast
  have v: "set (visited t L) = {n \<in> set (preorder t). node_contains_line n L}"
    using assms(1) by (simp add: visited_filter containing_nodes_set)
  have all: "\<forall>n\<in>set (preorder t). node_contains_line n L \<longrightarrow> span_width m \<le> span_width n"
    using least v by blast
  have "\<forall>d\<in>set (preorder m'). node_contains_line d L \<longrightarrow> \<not> span_width d < span_width m'"
    if m': "m' \<in> set (preorder t)" and r': "find_scope t L = Inr (current_scope m')" for m'
  proof -
    have "span_width m' = span_width m"
      using r r' by (simp add: current_scope_def span_width_def)
    then show ?thesis using all preorder_trans [OF m'] by fastforce
  qed
  then show ?thesis using m r v all by blast
qed

text \<open>On the example tree, line 8 resolves to the if statement on lines 7 to 9.\<close>

theorem minimality_witness:
  "nested example_tree \<and> node_contains_line example_tree 8 \<and>
   find_scope example_tree 8 =
     Inr \<lparr>scope_type = Some ''if_statement'', start_line = Some 7, end_line = Some 9\<rparr>"
proof -
  have h1: "nested example_tree" by (simp add: example_tree_def)
  have h2: "node_contains_line example_tree 8"
    by (simp add: example_tree_def node_contains_line_def)
  have "find_scope example_tree 8 =
     Inr \<lparr>scope_type = Some ''if_statement'', start_line = Some 7, end_line = Some 9\<rparr>"
    using minimality [OF h1 h2]
    by (simp add: example_tree_def find_scope_def node_contains_line_def update_smallest_def
        current_scope_def no_scope_def)
  then show ?thesis using h1 h2 by simp
qed

text \<open>
  Claim C2 (tie-break), as stated for every tree: among the nodes that contain the line,
  the first in pre-order of those with the least width is returned. In the tree below the
  two nodes on line 5 contain line 5 and share the least width 0, yet the resolver never
  reaches them, because their parent does not contain the line; it returns the root, of
  width 9.
\<close>

theorem tie_break_counterexample:
  "containing_nodes ill_nested_tree 5 =
     [ill_nested_tree,
      Node ''expression_statement'' (4, 0) (4, 5) [],
      Node ''line_comment'' (4, 7) (4, 20) []] \<and>
   span_width ill_nested_tree = 9 \<and>
   span_width (Node ''expression_statement'' (4, 0) (4, 5) []) = 0 \<and>
   span_width (Node ''line_comment'' (4, 7) (4, 20) []) = 0 \<and>
   find_scope ill_nested_tree 5 =
     Inr \<lparr>scope_type = Some ''program'', start_line = Some 1, end_line = Some 10\<rparr> \<and>
   find_scope ill_nested_tree 5 \<noteq>
     Inr (current_scope (Node ''expression_statement'' (4, 0) (4, 5) []))"
  by (simp add: ill_nested_tree_def containing_nodes_def span_width_def find_scope_def
      node_contains_line_def update_smallest_def current_scope_def no_scope_def)

text \<open>
  Claim C2 (tie-break), amended. For every tree and every line inside the span of the
  root, \<^verbatim>\<open>find_scope\<close> returns the first node of least width among the nodes that the
  pruned pre-order traversal reaches: every node reached before it is strictly wider,
  every node reached after it is at least as wide. In a tree that satisfies the nesting
  invariant the nodes reached are all the nodes that contain the line, in pre-order.
  The result is a function of the tree and the line alone.
\<close>

theorem tie_break_first_visited:
  "(node_contains_line t L \<longrightarrow>
      (\<exists>pre m post. visited t L = pre @ m # post \<and>
         find_scope t L = Inr (current_scope m) \<and>
         (\<forall>p\<in>set pre. span_width m < span_width p) \<and>
         (\<forall>q\<in>set post. span_width m \<le> span_width q))) \<and>
   (nested t \<longrightarrow> visited t L = containing_nodes t L)"
proof (intro conjI impI)
  assume "node_contains_line t L"
  then show "\<exists>pre m post. visited t L = pre @ m # post \<and>
         find_scope t L = Inr (current_scope m) \<and>
         (\<forall>p\<in>set pre. span_width m < span_width p) \<and>
         (\<forall>q\<in>set post. span_width m \<le> span_width q)"
    by (rule find_scope_inside)
next
  assume "nested t"
  then show "visited t L = containing_nodes t L" by (rule visited_filter)
qed

text \<open>
  A block and its first statement both cover lines 2 to 4; line 3 resolves to the
  block, which pre-order meets first.
\<close>

theorem tie_break_first_visited_witness:
  "node_contains_line tie_tree 3 \<and> nested tie_tree \<and>
   containing_nodes tie_tree 3 =
     [tie_tree,
      Node ''block'' (1, 0) (3, 1)
        [Node ''if_statement'' (1, 2) (3, 1) [], Node ''line_comment'' (3, 3) (3, 9) []],
      Node ''if_statement'' (1, 2) (3, 1) []] \<and>
   find_scope tie_tree 3 =
     Inr \<lparr>scope_type = Some ''block'', start_line = Some 2, end_line = Some 4\<rparr>"
proof -
  have h1: "node_contains_line tie_tree 3"
    by (simp add: tie_tree_def node_contains_line_def)
  have h2: "nested tie_tree" by (simp add: tie_tree_def)
  have "visited tie_tree 3 = containing_nodes tie_tree 3"
    using tie_break_first_visited [of tie_tree 3] h2 by simp
  moreover have "visited tie_tree 3 = [tie_tree,
      Node ''block'' (1, 0) (3, 1)
        [Node ''if_statement'' (1, 2) (3, 1) [], Node ''line_comment'' (3, 3) (3, 9) []],
      Node ''if_statement'' (1, 2) (3, 1) []]"
    by (simp add: tie_tree_def node_contains_line_def)
  moreover have "find_scope tie_tree 3 =
     Inr \<lparr>scope_type = Some ''block'', start_line = Some 2, end_line = Some 4\<rparr>"
    by (simp add: tie_tree_def find_scope_def node_contains_line_def update_smallest_def
        current_scope_def no_scope_def)
  ultimately show ?thesis using h1 h2 by simp
qed

text \<open>
  Claim C3 (containment correctness). For every tree and line, a result of
  \<^verbatim>\<open>find_scope\<close> other than the no-match dictionary has both lines set, and the line
  asked for lies between them.
\<close>

theorem containment_correctness:
  assumes "find_scope t L = Inr r" and "r \<noteq> no_scope"
  shows "\<exists>a b. start_line r = Some a \<and> end_line r = Some b \<and> a \<le> L \<and> L \<le> b"
proof (cases "node_contains_line t L")
  case True
  from find_scope_visited [OF True] obtain m where
    m: "m \<in> set (visited t L)" and r: "find_scope t L = Inr (current_scope m)"
    by blast
  have "node_contains_line m L" using m by (rule visited_contains)
  moreover have "r = current_scope m" using r assms(1) by simp
  ultimately show ?thesis by (simp add: current_scope_def node_contains_line_def)
next
  case False
  then show ?thesis using assms by (simp add: find_scope_outside)
qed

text \<open>On the example tree, line 3 resolves to the class on lines 2 to 19.\<close>

theorem containment_correctness_witness:
  "find_scope example_tree 3 =
     Inr \<lparr>scope_type = Some ''class_declaration'', start_line = Some 2, end_line = Some 19\<rparr> \<and>
   \<lparr>scope_type = Some ''class_declaration'', start_line = Some 2, end_line = Some 19\<rparr> \<noteq> no_scope \<and>
   (2::int) \<le> 3 \<and> (3::int) \<le> 19"
proof -
  have h1: "find_scope example_tree 3 =
     Inr \<lparr>scope_type = Some ''class_declaration'', start_line = Some 2, end_line = Some 19\<rparr>"
    by (simp add: example_tree_def find_scope_def node_contains_line_def update_smallest_def
        current_scope_def no_scope_def)
  have h2: "\<lparr>scope_type = Some ''class_declaration'', start_line = Some 2, end_line = Some 19\<rparr> \<noteq> no_scope"
    by (simp add: no_scope_def)
  show ?thesis using containment_correctness [OF h1 h2] h1 h2 by simp
qed

lemma exhaustive_outside:
  "nested t \<Longrightarrow> \<not> node_contains_line t L \<Longrightarrow> exhaustive_search t L s = Inr s"
  "(\<forall>c\<in>set cs. nested c \<and> \<not> node_contains_line c L) \<Longrightarrow> exhaustive_children cs L s = Inr s"
proof (induction t L s and cs L s rule: exhaustive_search_exhaustive_children.induct)
  case (1 ty sp ep cs L s)
  have "\<forall>c\<in>set cs. nested c \<and> \<not> node_contains_line c L"
    using 1(2,3) by (auto simp: node_contains_line_def)
  then show ?case using 1 by simp
qed simp_all

lemma pruned_is_exhaustive:
  "nested t \<Longrightarrow> find_smallest_enclosing_scope t L s = exhaustive_search t L s"
  "(\<forall>c\<in>set cs. nested c) \<Longrightarrow> for_children cs L s = exhaustive_children cs L s"
proof (induction t L s and cs L s rule: find_smallest_enclosing_scope_for_children.induct)
  case (1 ty sp ep cs L s)
  show ?case
  proof (cases "node_contains_line (Node ty sp ep cs) L")
    case True
    then show ?thesis using 1 by (auto split: sum.splits)
  next
    case False
    then show ?thesis using exhaustive_outside(1) [OF "1.prems" False] by simp
  qed
next
  case (2 L s)
  then show ?case by simp
next
  case (3 child rest L s)
  then show ?case by (auto split: sum.splits)
qed

lemma exhaustive_is_update_all:
  "exhaustive_search t L s = update_all (containing_nodes t L) s"
  "exhaustive_children cs L s = update_all (concat (map (\<lambda>c. containing_nodes c L) cs)) s"
  by (induction t L s and cs L s rule: exhaustive_search_exhaustive_children.induct)
     (auto simp: update_all_append containing_nodes_def filter_concat comp_def split: sum.splits)

text \<open>
  Claim C4 (pruning equivalence). On a well-formed tree the pruned search returns what
  the exhaustive search returns, from any starting dictionary and so from the initial
  one; and the exhaustive search is the update applied, in pre-order, to every node of
  the tree that contains the line.
\<close>

theorem pruning_equivalence:
  assumes "well_formed t"
  shows "find_smallest_enclosing_scope t L s = exhaustive_search t L s \<and>
         find_scope t L = exhaustive_scope t L \<and>
         exhaustive_scope t L = update_all (containing_nodes t L) no_scope"
  using assms
  by (simp add: well_formed_def find_scope_def exhaustive_scope_def pruned_is_exhaustive(1)
      exhaustive_is_update_all(1))

section \<open>Further properties of the resolver\<close>

text \<open>On the example tree, both searches resolve line 6 to the method on lines 5 to 10.\<close>

theorem pruning_equivalence_witness:
  "well_formed example_tree \<and>
   find_scope example_tree 6 = exhaustive_scope example_tree 6 \<and>
   exhaustive_scope example_tree 6 =
     Inr \<lparr>scope_type = Some ''method_declaration'', start_line = Some 5, end_line = Some 10\<rparr>"
proof -
  have h: "well_formed example_tree" by (simp add: well_formed_def example_tree_def)
  have "exhaustive_scope example_tree 6 =
     Inr \<lparr>scope_type = Some ''method_declaration'', start_line = Some 5, end_line = Some 10\<rparr>"
    by (simp add: example_tree_def exhaustive_scope_def node_contains_line_def update_smallest_def
        current_scope_def no_scope_def)
  then show ?thesis using pruning_equivalence [OF h, of 6 no_scope] h by simp
qed

text \<open>
  Claim C5 (no-match exactly when the root does not contain the line). For every tree,
  \<^verbatim>\<open>find_scope\<close> returns the dictionary with every value \<^verbatim>\<open>None\<close> when the span of
  the root does not contain the line, in particular when the line is greater than the
  end line of the root; otherwise it returns the dictionary of a node of the tree, which
  is not the no-match dictionary.
\<close>

theorem no_match_iff_root_outside:
  "(\<not> node_contains_line t L \<longrightarrow> find_scope t L = Inr no_scope) \<and>
   (fst (end_point t) + 1 < L \<longrightarrow> find_scope t L = Inr no_scope) \<and>
   (node_contains_line t L \<longrightarrow>
      find_scope t L \<noteq> Inr no_scope \<and>
      (\<exists>m\<in>set (preorder t). find_scope t L = Inr (current_scope m)))"
proof -
  have "find_scope t L \<noteq> Inr no_scope \<and> (\<exists>m\<in>set (preorder t). find_scope t L = Inr (current_scope m))"
    if c: "node_contains_line t L"
  proof -
    from find_scope_visited [OF c] obtain m where
      m: "m \<in> set (visited t L)" and r: "find_scope t L = Inr (current_scope m)"
      by blast
    show ?thesis using r visited_subset [OF m] by (auto simp: current_scope_not_none)
  qed
  moreover have "\<not> node_contains_line t L" if "fst (end_point t) + 1 < L"
    using that by (simp add: node_contains_line_def)
  ultimately show ?thesis using find_scope_outside by blast
qed

text \<open>On the example tree, line 25 has no match and line 20 resolves to the root.\<close>

theorem no_match_iff_root_outside_witness:
  "\<not> node_contains_line example_tree 25 \<and> fst (end_point example_tree) + 1 < 25 \<and>
   find_scope example_tree 25 = Inr no_scope \<and>
   node_contains_line example_tree 20 \<and>
   find_scope example_tree 20 =
     Inr \<lparr>scope_type = Some ''program'', start_line = Some 1, end_line = Some 20\<rparr>"
proof -
  have h1: "\<not> node_contains_line example_tree 25"
    by (simp add: example_tree_def node_contains_line_def)
  have h2: "fst (end_point example_tree) + 1 < 25" by (simp add: example_tree_def)
  have h3: "node_contains_line example_tree 20"
    by (simp add: example_tree_def node_contains_line_def)
  have "find_scope example_tree 25 = Inr no_scope"
    using no_match_iff_root_outside [of example_tree 25] h1 by simp
  moreover have "find_scope example_tree 20 =
     Inr \<lparr>scope_type = Some ''program'', start_line = Some 1, end_line = Some 20\<rparr>"
    using no_match_iff_root_outside [of example_tree 20] h3
    by (simp add: example_tree_def find_scope_def node_contains_line_def update_smallest_def
        current_scope_def no_scope_def)
  ultimately show ?thesis using h1 h2 h3 by simp
qed

text \<open>
  Claim C6 (coordinate convention). The lines of the dictionary built from a node are
  its 0-based start and end rows plus 1; the containment test holds exactly when the
  line lies between these two 1-based lines, inclusive; and a match reported by
  \<^verbatim>\<open>find_scope\<close> carries the type and these two lines of a node of the tree.
\<close>

theorem coordinate_convention:
  "start_line (current_scope n) = Some (fst (start_point n) + 1) \<and>
   end_line (current_scope n) = Some (fst (end_point n) + 1) \<and>
   (node_contains_line n L \<longleftrightarrow> fst (start_point n) + 1 \<le> L \<and> L \<le> fst (end_point n) + 1) \<and>
   (find_scope t L = Inr r \<and> r \<noteq> no_scope \<longrightarrow>
      (\<exists>m\<in>set (preorder t).
         scope_type r = Some (type m) \<and>
         start_line r = Some (fst (start_point m) + 1) \<and>
         end_line r = Some (fst (end_point m) + 1)))"
proof -
  have "\<exists>m\<in>set (preorder t). scope_type r = Some (type m) \<and>
         start_line r = Some (fst (start_point m) + 1) \<and>
         end_line r = Some (fst (end_point m) + 1)"
    if r: "find_scope t L = Inr r" and nn: "r \<noteq> no_scope"
  proof (cases "node_contains_line t L")
    case True
    from find_scope_visited [OF True] obtain m where
      m: "m \<in> set (visited t L)" and rm: "find_scope t L = Inr (current_scope m)"
      by blast
    have "r = current_scope m" using r rm by simp
    then show ?thesis using visited_subset [OF m] by (auto simp: current_scope_def)
  next
    case False
    then show ?thesis using r nn by (simp add: find_scope_outside)
  qed
  then show ?thesis by (auto simp: current_scope_def node_contains_line_def)
qed

text \<open>
  The if statement on rows 6 to 8 is reported on lines 7 to 9; it contains line 9 and
  not line 10.
\<close>

theorem coordinate_convention_witness:
  "find_scope example_tree 8 =
     Inr \<lparr>scope_type = Some ''if_statement'', start_line = Some (6 + 1), end_line = Some (8 + 1)\<rparr> \<and>
   \<lparr>scope_type = Some ''if_statement'', start_line = Some (6 + 1), end_line = Some (8 + 1)\<rparr> \<noteq> no_scope \<and>
   node_contains_line (Node ''if_statement'' (6, 8) (8, 9) []) 9 \<and>
   \<not> node_contains_line (Node ''if_statement'' (6, 8) (8, 9) []) 10"
proof -
  have h1: "find_scope example_tree 8 =
     Inr \<lparr>scope_type = Some ''if_statement'', start_line = Some (6 + 1), end_line = Some (8 + 1)\<rparr>"
    by (simp add: example_tree_def find_scope_def node_contains_line_def update_smallest_def
        current_scope_def no_scope_def)
  have h2: "\<lparr>scope_type = Some ''if_statement'', start_line = Some (6 + 1), end_line = Some (8 + 1)\<rparr> \<noteq> no_scope"
    by (simp add: no_scope_def)
  have "node_contains_line (Node ''if_statement'' (6, 8) (8, 9) []) 9"
       "\<not> node_contains_line (Node ''if_statement'' (6, 8) (8, 9) []) 10"
    using coordinate_convention [of "Node ''if_statement'' (6, 8) (8, 9) []" 9]
          coordinate_convention [of "Node ''if_statement'' (6, 8) (8, 9) []" 10]
    by simp_all
  then show ?thesis using h1 h2 by simp
qed

lemma update_all_coherent:
  "coherent s \<Longrightarrow> \<exists>r. update_all ns s = Inr r \<and> coherent r"
proof (induction ns arbitrary: s)
  case Nil
  then show ?case by simp
next
  case (Cons n ns)
  have "\<exists>s'. update_smallest n s = Inr s' \<and> coherent s'"
    using Cons.prems
    by (auto simp: update_smallest_def coherent_def current_scope_def split: option.splits)
  then show ?case using Cons.IH by auto
qed

lemma no_scope_coherent: "coherent no_scope"
  by (simp add: coherent_def no_scope_def)

lemma find_smallest_coherent:
  "coherent s \<Longrightarrow> \<exists>r. find_smallest_enclosing_scope t L s = Inr r \<and> coherent r"
  by (simp add: find_is_update_all update_all_coherent)

lemma rows_from_zero_outside:
  "rows_from_zero t \<Longrightarrow> L \<le> 0 \<Longrightarrow> n \<in> set (preorder t) \<Longrightarrow> \<not> node_contains_line n L"
  by (auto simp: rows_from_zero_def node_contains_line_def)

lemma display_result_coherent:
  "coherent r \<Longrightarrow> snd (display_result r lines) = Inr ()"
  by (auto simp: coherent_def display_result_def split: option.splits)

text \<open>
  Claim C10 (coherence of the result). For every tree and line, the dictionary that
  \<^verbatim>\<open>find_scope\<close> returns has its three values all set or all \<^verbatim>\<open>None\<close>; so the test
  of \<^verbatim>\<open>display_result\<close> on the type and the test of the resolver on the start line
  agree, and \<^verbatim>\<open>display_result\<close> raises nothing on it.
\<close>

theorem result_coherence:
  "\<exists>r. find_scope t L = Inr r \<and> coherent r \<and>
        (scope_type r = None \<longleftrightarrow> start_line r = None) \<and>
        snd (display_result r lines) = Inr ()"
proof -
  from find_smallest_coherent [OF no_scope_coherent] obtain r where
    r: "find_scope t L = Inr r" and c: "coherent r"
    by (auto simp: find_scope_def)
  have "scope_type r = None \<longleftrightarrow> start_line r = None"
    using c by (auto simp: coherent_def)
  then show ?thesis using r c display_result_coherent [OF c, of lines] by simp
qed

text \<open>Both kinds of result on the example tree: no match at line 25, a match at line 8.\<close>

theorem result_coherence_witness:
  "find_scope example_tree 25 = Inr no_scope \<and> coherent no_scope \<and>
   find_scope example_tree 8 =
     Inr \<lparr>scope_type = Some ''if_statement'', start_line = Some 7, end_line = Some 9\<rparr> \<and>
   coherent \<lparr>scope_type = Some ''if_statement'', start_line = Some 7, end_line = Some 9\<rparr>"
proof -
  have a: "find_scope example_tree 25 = Inr no_scope"
    by (simp add: example_tree_def find_scope_def node_contains_line_def)
  have b: "find_scope example_tree 8 =
     Inr \<lparr>scope_type = Some ''if_statement'', start_line = Some 7, end_line = Some 9\<rparr>"
    by (simp add: example_tree_def find_scope_def node_contains_line_def update_smallest_def
        current_scope_def no_scope_def)
  show ?thesis
    using result_coherence [of example_tree 25] result_coherence [of example_tree 8] a b
    by auto
qed

section \<open>Properties of the resolver under the limit on nested calls\<close>

text \<open>
  The limited resolver returns what the unlimited one returns whenever it returns; it
  returns when the interpreter grants the nested calls the line needs in the tree, and
  raises \<^verbatim>\<open>RecursionError\<close> when it does not.
\<close>

lemma frames_needed_least: "2 \<le> frames_needed t L"
  by (cases t) simp

lemma within_returns:
  "find_smallest_enclosing_scope_within k t L s = Inr r \<Longrightarrow>
     find_smallest_enclosing_scope t L s = Inr r"
  "for_children_within k cs L s = Inr r \<Longrightarrow> for_children cs L s = Inr r"
  by (induction k t L s and k cs L s arbitrary: r and r
      rule: find_smallest_enclosing_scope_within_for_children_within.induct)
     (auto split: sum.splits if_splits)

lemma find_scope_within_returns:
  "find_scope_within k t L = Inr r \<Longrightarrow> find_scope t L = Inr r"
  unfolding find_scope_within_def find_scope_def by (rule within_returns(1))

lemma within_enough:
  "frames_needed t L \<le> k \<Longrightarrow>
     find_smallest_enclosing_scope_within k t L s = find_smallest_enclosing_scope t L s"
  "frames_for_children cs L \<le> k \<Longrightarrow> for_children_within k cs L s = for_children cs L s"
proof (induction k t L s and k cs L s
    rule: find_smallest_enclosing_scope_within_for_children_within.induct)
  case (1 n L s)
  then show ?case using frames_needed_least [of n L] by simp
next
  case (2 k ty sp ep cs L s)
  then show ?case by (auto split: sum.splits if_splits)
next
  case (3 k L s)
  then show ?case by simp
next
  case (4 k child rest L s)
  then show ?case by (auto split: sum.splits)
qed

lemma update_smallest_coherent:
  "coherent s \<Longrightarrow> \<exists>s'. update_smallest n s = Inr s' \<and> coherent s'"
  by (auto simp: update_smallest_def coherent_def current_scope_def split: option.splits)

lemma within_too_deep:
  "coherent s \<Longrightarrow> k < frames_needed t L \<Longrightarrow>
     find_smallest_enclosing_scope_within k t L s = Inl RecursionError"
  "coherent s \<Longrightarrow> k < frames_for_children cs L \<Longrightarrow>
     for_children_within k cs L s = Inl RecursionError"
proof (induction k t L s and k cs L s
    rule: find_smallest_enclosing_scope_within_for_children_within.induct)
  case (1 n L s)
  then show ?case by simp
next
  case (2 k ty sp ep cs L s)
  let ?n = "Node ty sp ep cs"
  show ?case
  proof (cases "k = 0")
    case True
    then show ?thesis by simp
  next
    case False
    then have c: "node_contains_line ?n L" and d: "k < frames_for_children cs L"
      using "2.prems"(2) by (auto split: if_splits)
    from update_smallest_coherent [OF "2.prems"(1)] obtain s' where
      u: "update_smallest ?n s = Inr s'" and s': "coherent s'"
      by blast
    have "for_children_within k cs L s' = Inl RecursionError"
      using "2.IH" [OF False c u s' d] .
    then show ?thesis using False c u by simp
  qed
next
  case (3 k L s)
  then show ?case by simp
next
  case (4 k child rest L s)
  show ?case
  proof (cases "find_smallest_enclosing_scope_within k child L s")
    case (Inl e)
    have "\<not> frames_needed child L \<le> k"
    proof
      assume "frames_needed child L \<le> k"
      then have "find_smallest_enclosing_scope_within k child L s =
          find_smallest_enclosing_scope child L s"
        by (rule within_enough(1))
      then show False using Inl find_smallest_coherent [OF "4.prems"(1), of child L] by auto
    qed
    then have "find_smallest_enclosing_scope_within k child L s = Inl RecursionError"
      using "4.IH"(1) [OF "4.prems"(1)] by simp
    then show ?thesis by simp
  next
    case (Inr s')
    have "\<not> k < frames_needed child L"
      using "4.IH"(1) [OF "4.prems"(1)] Inr by auto
    then have d: "k < frames_for_children rest L" using "4.prems"(2) by simp
    have "coherent s'"
      using within_returns(1) [OF Inr] find_smallest_coherent [OF "4.prems"(1), of child L]
      by auto
    from "4.IH"(2) [OF Inr this d] show ?thesis using Inr by simp
  qed
qed

lemma frames_needed_parenthesized: "frames_needed (parenthesized d) 2 = d + 2"
  by (induction d) (simp_all add: node_contains_line_def)

lemma frames_needed_deep_tree: "frames_needed (deep_tree d) 2 = d + 3"
  by (simp add: deep_tree_def node_contains_line_def frames_needed_parenthesized)

lemma frames_needed_outside: "\<not> node_contains_line t L \<Longrightarrow> frames_needed t L = 2"
  by (cases t) simp

text \<open>
  Claim C9 (the resolver is total), as stated for every tree and every line. An
  expression in 1000 pairs of parentheses on line 2 nests more calls than a recursion
  limit of 1000 grants, even with all of them left to the resolver: \<^verbatim>\<open>find_scope\<close>
  raises \<^verbatim>\<open>RecursionError\<close> on line 2.
\<close>

theorem resolver_total_counterexample:
  "find_scope_within 1000 (deep_tree 1000) 2 = Inl RecursionError"
proof -
  have "(1000::nat) < frames_needed (deep_tree 1000) 2"
    by (simp add: frames_needed_deep_tree)
  with no_scope_coherent show ?thesis
    unfolding find_scope_within_def by (rule within_too_deep(1))
qed

text \<open>
  Claim C9 (the resolver is total), amended. For every tree and every integer line,
  \<^verbatim>\<open>find_scope\<close> returns a dictionary, the one the unlimited recursion computes, when
  the interpreter grants the nested calls the resolver needs: one for each node on the
  deepest chain of nodes it descends into, and one more for \<^verbatim>\<open>node_contains_line\<close>.
  With fewer it raises \<^verbatim>\<open>RecursionError\<close>. When no row of the tree is negative and
  the line is zero or negative, no node contains the line, two nested calls are all the
  resolver needs, and with them the result is no-match.
\<close>

theorem resolver_total_within_limit:
  "(frames_needed t L \<le> k \<longrightarrow>
      (\<exists>r. find_scope_within k t L = Inr r \<and> find_scope t L = Inr r)) \<and>
   (k < frames_needed t L \<longrightarrow> find_scope_within k t L = Inl RecursionError) \<and>
   (rows_from_zero t \<and> L \<le> 0 \<longrightarrow>
      (\<forall>n\<in>set (preorder t). \<not> node_contains_line n L) \<and>
      frames_needed t L = 2 \<and>
      (2 \<le> k \<longrightarrow> find_scope_within k t L = Inr no_scope))"
proof (intro conjI impI)
  assume "frames_needed t L \<le> k"
  then have "find_scope_within k t L = find_scope t L"
    by (simp add: find_scope_within_def find_scope_def within_enough(1))
  moreover have "\<exists>r. find_scope t L = Inr r"
    using find_smallest_coherent [OF no_scope_coherent] by (auto simp: find_scope_def)
  ultimately show "\<exists>r. find_scope_within k t L = Inr r \<and> find_scope t L = Inr r" by auto
next
  assume "k < frames_needed t L"
  with no_scope_coherent show "find_scope_within k t L = Inl RecursionError"
    unfolding find_scope_within_def by (rule within_too_deep(1))
next
  assume a: "rows_from_zero t \<and> L \<le> 0"
  then show "\<forall>n\<in>set (preorder t). \<not> node_contains_line n L"
    using rows_from_zero_outside by blast
next
  assume a: "rows_from_zero t \<and> L \<le> 0"
  then have "\<not> node_contains_line t L" using rows_from_zero_outside preorder_self by blast
  then show "frames_needed t L = 2" by (rule frames_needed_outside)
next
  assume a: "rows_from_zero t \<and> L \<le> 0" and k: "2 \<le> k"
  have o: "\<not> node_contains_line t L" using a rows_from_zero_outside preorder_self by blast
  then have "frames_needed t L \<le> k" using k by (simp add: frames_needed_outside)
  then have "find_scope_within k t L = find_scope t L"
    by (simp add: find_scope_within_def find_scope_def within_enough(1))
  then show "find_scope_within k t L = Inr no_scope" using o by (simp add: find_scope_outside)
qed

text \<open>
  On the example tree line 8 needs five nested calls: it resolves with five and raises
  with four. Lines -3 and 0 need two and have no match.
\<close>

theorem resolver_total_within_limit_witness:
  "frames_needed example_tree 8 = 5 \<and>
   find_scope_within 5 example_tree 8 =
     Inr \<lparr>scope_type = Some ''if_statement'', start_line = Some 7, end_line = Some 9\<rparr> \<and>
   find_scope_within 4 example_tree 8 = Inl RecursionError \<and>
   rows_from_zero example_tree \<and> (-3::int) \<le> 0 \<and>
   frames_needed example_tree (-3) = 2 \<and>
   find_scope_within 2 example_tree (-3) = Inr no_scope \<and>
   find_scope_within 997 example_tree 0 = Inr no_scope"
proof -
  have h: "rows_from_zero example_tree" by (simp add: rows_from_zero_def example_tree_def)
  have f: "frames_needed example_tree 8 = 5"
    by (simp add: example_tree_def node_contains_line_def)
  have r: "find_scope example_tree 8 =
     Inr \<lparr>scope_type = Some ''if_statement'', start_line = Some 7, end_line = Some 9\<rparr>"
    by (simp add: example_tree_def find_scope_def node_contains_line_def update_smallest_def
        current_scope_def no_scope_def)
  show ?thesis
    using resolver_total_within_limit [of example_tree 8 5]
      resolver_total_within_limit [of example_tree 8 4]
      resolver_total_within_limit [of example_tree "-3" 2]
      resolver_total_within_limit [of example_tree 0 997]
      h f r
    by simp
qed

section \<open>Properties of the command-line program\<close>

lemma main_rejected:
  assumes "open_file env fp = Readable code lines"
    and "\<not> (0 < L \<and> L \<le> int (length lines))"
  shows "main env fp L =
     \<lparr>exit_code = 1, printed = fst (validate_line_number L (int (length lines))),
      calls = [Call_read_file, Call_validate_line_number]\<rparr>"
  using assms by (auto simp: main_def read_file_def validate_line_number_def)

lemma main_resolved:
  assumes "open_file env fp = Readable code lines"
    and "0 < L" and "L \<le> int (length lines)"
    and "get_language env" and "get_parser env = Some parser" and "parser code = Some tree"
    and "find_scope_within (frames env) tree L = Inr r"
  shows "main env fp L =
       \<lparr>exit_code = 0, printed = fst (display_result r lines),
        calls = [Call_read_file, Call_validate_line_number, Call_get_language, Call_get_parser,
                 Call_parse_code, Call_find_scope, Call_display_result]\<rparr>"
proof -
  have "find_smallest_enclosing_scope tree L no_scope = Inr r"
    using assms(7) unfolding find_scope_within_def by (rule within_returns(1))
  then have "coherent r"
    using find_smallest_coherent [OF no_scope_coherent, of tree L] by auto
  then have d: "snd (display_result r lines) = Inr ()" by (rule display_result_coherent)
  obtain out where o: "display_result r lines = (out, Inr ())"
    using d by (cases "display_result r lines") simp
  show ?thesis using assms o
    by (simp add: main_def read_file_def validate_line_number_def parse_code_def)
qed

lemma main_resolver_raised:
  assumes "open_file env fp = Readable code lines"
    and "0 < L" and "L \<le> int (length lines)"
    and "get_language env" and "get_parser env = Some parser" and "parser code = Some tree"
    and "find_scope_within (frames env) tree L = Inl e"
  shows "exit_code (main env fp L) = 1"
  using assms
  by (simp add: main_def read_file_def validate_line_number_def parse_code_def)

lemma main_read_failed:
  "open_file env fp = Missing \<or> open_file env fp = Unreadable \<or> open_file env fp = Undecodable \<Longrightarrow>
   exit_code (main env fp L) = 1 \<and> calls (main env fp L) = [Call_read_file]"
  by (auto simp: main_def read_file_def)

lemma main_parser_failed:
  assumes "open_file env fp = Readable code lines"
    and "0 < L" and "L \<le> int (length lines)"
    and "\<not> get_language env \<or> get_parser env = None \<or>
         (\<exists>parser. get_parser env = Some parser \<and> parser code = None)"
  shows "exit_code (main env fp L) = 1"
  using assms
  by (auto simp: main_def read_file_def validate_line_number_def parse_code_def)

text \<open>
  Claim C7 (validation precedes resolution). \<^verbatim>\<open>validate_line_number\<close> rejects a line
  that is zero or negative with the message that it must be positive, rejects a positive
  line greater than the number of lines with the message that it exceeds that number,
  and accepts every other line silently. When the file was read and the line is
  rejected, \<^verbatim>\<open>main\<close> exits with status 1 having called only \<^verbatim>\<open>read_file\<close> and
  \<^verbatim>\<open>validate_line_number\<close>: neither the parser nor the resolver is called.
\<close>

theorem validation_precedes_resolution:
  "(L \<le> 0 \<longrightarrow> validate_line_number L T = ([Error_line_number_not_positive], False)) \<and>
   (0 < L \<and> T < L \<longrightarrow> validate_line_number L T = ([Error_line_number_exceeds L T], False)) \<and>
   (0 < L \<and> L \<le> T \<longrightarrow> validate_line_number L T = ([], True)) \<and>
   (open_file env fp = Readable code lines \<and>
    \<not> snd (validate_line_number L (int (length lines))) \<longrightarrow>
      main env fp L =
        \<lparr>exit_code = 1, printed = fst (validate_line_number L (int (length lines))),
         calls = [Call_read_file, Call_validate_line_number]\<rparr> \<and>
      Call_get_parser \<notin> set (calls (main env fp L)) \<and>
      Call_parse_code \<notin> set (calls (main env fp L)) \<and>
      Call_find_scope \<notin> set (calls (main env fp L)))"
proof -
  have "main env fp L =
        \<lparr>exit_code = 1, printed = fst (validate_line_number L (int (length lines))),
         calls = [Call_read_file, Call_validate_line_number]\<rparr>"
    if "open_file env fp = Readable code lines"
      and "\<not> snd (validate_line_number L (int (length lines)))"
  proof -
    have "\<not> (0 < L \<and> L \<le> int (length lines))"
      using that(2) by (auto simp: validate_line_number_def)
    with that(1) show ?thesis by (rule main_rejected)
  qed
  then show ?thesis by (auto simp: validate_line_number_def)
qed

text \<open>Lines 0, 25 and 8 against 20 lines, and a run on line 25 of the example file.\<close>

theorem validation_precedes_resolution_witness:
  "validate_line_number 0 20 = ([Error_line_number_not_positive], False) \<and>
   validate_line_number 25 20 = ([Error_line_number_exceeds 25 20], False) \<and>
   validate_line_number 8 20 = ([], True) \<and>
   open_file (env_with example_tree) ''A.java'' = Readable ''bytes'' example_lines \<and>
   \<not> snd (validate_line_number 25 (int (length example_lines))) \<and>
   main (env_with example_tree) ''A.java'' 25 =
     \<lparr>exit_code = 1, printed = [Error_line_number_exceeds 25 20],
      calls = [Call_read_file, Call_validate_line_number]\<rparr>"
proof -
  have h1: "open_file (env_with example_tree) ''A.java'' = Readable ''bytes'' example_lines"
    by (simp add: env_with_def)
  have h2: "\<not> snd (validate_line_number 25 (int (length example_lines)))"
    by (simp add: validate_line_number_def example_lines_def)
  have v: "fst (validate_line_number 25 (int (length example_lines))) =
      [Error_line_number_exceeds 25 20]"
    by (simp add: validate_line_number_def example_lines_def)
  show ?thesis
    using validation_precedes_resolution [where L = 0 and T = 20]
      validation_precedes_resolution [where L = 8 and T = 20]
      validation_precedes_resolution
        [where L = 25 and T = 20 and env = "env_with example_tree" and fp = "''A.java''"
           and code = "''bytes''" and lines = example_lines]
      h1 h2 v
    by simp
qed

text \<open>
  Claim C8 (exit codes). \<^verbatim>\<open>main\<close> exits with status 1 when the file does not exist,
  when it cannot be read, when the line is not positive or exceeds the number of lines,
  and when the grammar, the parser or the parse fails. When the file parses, the line
  is valid and the resolver returns, \<^verbatim>\<open>main\<close> exits with status 0, whether the result
  is a match or no-match, having printed what \<^verbatim>\<open>display_result\<close> prints for it. The
  resolver returns exactly when the interpreter grants the nested calls it needs;
  otherwise its \<^verbatim>\<open>RecursionError\<close> is caught nowhere and the status is 1.
\<close>

theorem exit_codes:
  "(open_file env fp = Missing \<longrightarrow> exit_code (main env fp L) = 1) \<and>
   (open_file env fp = Unreadable \<longrightarrow> exit_code (main env fp L) = 1) \<and>
   (open_file env fp = Undecodable \<longrightarrow> exit_code (main env fp L) = 1) \<and>
   (open_file env fp = Readable code lines \<longrightarrow>
      (L \<le> 0 \<or> int (length lines) < L \<longrightarrow> exit_code (main env fp L) = 1) \<and>
      (0 < L \<and> L \<le> int (length lines) \<longrightarrow>
         (\<not> get_language env \<or> get_parser env = None \<longrightarrow> exit_code (main env fp L) = 1) \<and>
         (get_language env \<and> get_parser env = Some parser \<longrightarrow>
            (parser code = None \<longrightarrow> exit_code (main env fp L) = 1) \<and>
            (parser code = Some tree \<longrightarrow>
               (find_scope_within (frames env) tree L = Inr r \<longrightarrow>
                  exit_code (main env fp L) = 0 \<and>
                  printed (main env fp L) = fst (display_result r lines) \<and>
                  (\<not> node_contains_line tree L \<longrightarrow>
                     printed (main env fp L) = [No_relevant_scope_found])) \<and>
               (frames_needed tree L \<le> frames env \<longrightarrow> exit_code (main env fp L) = 0) \<and>
               (frames env < frames_needed tree L \<longrightarrow> exit_code (main env fp L) = 1)))))"
proof -
  have ok: "exit_code (main env fp L) = 0 \<and>
      printed (main env fp L) = fst (display_result r' lines) \<and>
      (\<not> node_contains_line tree L \<longrightarrow> printed (main env fp L) = [No_relevant_scope_found])"
    if a: "open_file env fp = Readable code lines" "0 < L" "L \<le> int (length lines)"
      "get_language env" "get_parser env = Some parser" "parser code = Some tree"
      "find_scope_within (frames env) tree L = Inr r'" for r'
  proof -
    note m = main_resolved [OF a]
    have "printed (main env fp L) = [No_relevant_scope_found]" if "\<not> node_contains_line tree L"
    proof -
      have "find_scope tree L = Inr r'"
        using a(7) unfolding find_scope_within_def find_scope_def by (rule within_returns(1))
      then have "r' = no_scope" using find_scope_outside [OF that] by simp
      then show ?thesis using m by (simp add: display_result_def no_scope_def)
    qed
    then show ?thesis using m by simp
  qed
  have enough: "exit_code (main env fp L) = 0"
    if a: "open_file env fp = Readable code lines" "0 < L" "L \<le> int (length lines)"
      "get_language env" "get_parser env = Some parser" "parser code = Some tree"
      and f: "frames_needed tree L \<le> frames env"
  proof -
    have "find_scope_within (frames env) tree L = find_scope tree L"
      using f by (simp add: find_scope_within_def find_scope_def within_enough(1))
    moreover have "\<exists>r'. find_scope tree L = Inr r'"
      using find_smallest_coherent [OF no_scope_coherent] by (auto simp: find_scope_def)
    ultimately obtain r' where "find_scope_within (frames env) tree L = Inr r'" by auto
    from ok [OF a this] show ?thesis by simp
  qed
  have deep: "exit_code (main env fp L) = 1"
    if a: "open_file env fp = Readable code lines" "0 < L" "L \<le> int (length lines)"
      "get_language env" "get_parser env = Some parser" "parser code = Some tree"
      and f: "frames env < frames_needed tree L"
  proof -
    have "find_scope_within (frames env) tree L = Inl RecursionError"
      using no_scope_coherent f unfolding find_scope_within_def by (rule within_too_deep(1))
    with a show ?thesis by (rule main_resolver_raised)
  qed
  have bad: "exit_code (main env fp L) = 1"
    if "open_file env fp = Readable code lines" "L \<le> 0 \<or> int (length lines) < L"
  proof -
    have "\<not> (0 < L \<and> L \<le> int (length lines))" using that(2) by auto
    from main_rejected [OF that(1) this] show ?thesis by simp
  qed
  show ?thesis
  proof (intro conjI impI)
    assume "open_file env fp = Missing"
    then show "exit_code (main env fp L) = 1" by (simp add: main_read_failed)
  next
    assume "open_file env fp = Unreadable"
    then show "exit_code (main env fp L) = 1" by (simp add: main_read_failed)
  next
    assume "open_file env fp = Undecodable"
    then show "exit_code (main env fp L) = 1" by (simp add: main_read_failed)
  next
    assume "open_file env fp = Readable code lines" "L \<le> 0 \<or> int (length lines) < L"
    then show "exit_code (main env fp L) = 1" by (rule bad)
  next
    assume "open_file env fp = Readable code lines" "0 < L \<and> L \<le> int (length lines)"
      "\<not> get_language env \<or> get_parser env = None"
    then show "exit_code (main env fp L) = 1"
      using main_parser_failed [of env fp code lines L] by blast
  next
    assume "open_file env fp = Readable code lines" "0 < L \<and> L \<le> int (length lines)"
      "get_language env \<and> get_parser env = Some parser" "parser code = None"
    then show "exit_code (main env fp L) = 1"
      using main_parser_failed [of env fp code lines L] by blast
  next
    assume "open_file env fp = Readable code lines" "0 < L \<and> L \<le> int (length lines)"
      "get_language env \<and> get_parser env = Some parser" "parser code = Some tree"
      "find_scope_within (frames env) tree L = Inr r"
    then show "exit_code (main env fp L) = 0" using ok by blast
  next
    assume "open_file env fp = Readable code lines" "0 < L \<and> L \<le> int (length lines)"
      "get_language env \<and> get_parser env = Some parser" "parser code = Some tree"
      "find_scope_within (frames env) tree L = Inr r"
    then show "printed (main env fp L) = fst (display_result r lines)" using ok by blast
  next
    assume "open_file env fp = Readable code lines" "0 < L \<and> L \<le> int (length lines)"
      "get_language env \<and> get_parser env = Some parser" "parser code = Some tree"
      "find_scope_within (frames env) tree L = Inr r" "\<not> node_contains_line tree L"
    then show "printed (main env fp L) = [No_relevant_scope_found]" using ok by blast
  next
    assume "open_file env fp = Readable code lines" "0 < L \<and> L \<le> int (length lines)"
      "get_language env \<and> get_parser env = Some parser" "parser code = Some tree"
      "frames_needed tree L \<le> frames env"
    then show "exit_code (main env fp L) = 0" using enough by blast
  next
    assume "open_file env fp = Readable code lines" "0 < L \<and> L \<le> int (length lines)"
      "get_language env \<and> get_parser env = Some parser" "parser code = Some tree"
      "frames env < frames_needed tree L"
    then show "exit_code (main env fp L) = 1" using deep by blast
  qed
qed

text \<open>
  Runs on the example file: a missing path, lines 0 and 21, line 8 with the example
  tree, line 1 with a tree that starts on line 3, and line 2 with an expression in
  1000 pairs of parentheses.
\<close>

theorem exit_codes_witness:
  "open_file (env_with example_tree) ''B.java'' = Missing \<and>
   exit_code (main (env_with example_tree) ''B.java'' 8) = 1 \<and>
   open_file (env_with example_tree) ''A.java'' = Readable ''bytes'' example_lines \<and>
   exit_code (main (env_with example_tree) ''A.java'' 0) = 1 \<and>
   exit_code (main (env_with example_tree) ''A.java'' 21) = 1 \<and>
   find_scope_within 997 example_tree 8 =
     Inr \<lparr>scope_type = Some ''if_statement'', start_line = Some 7, end_line = Some 9\<rparr> \<and>
   exit_code (main (env_with example_tree) ''A.java'' 8) = 0 \<and>
   printed (main (env_with example_tree) ''A.java'' 8) =
     [Scope_type ''if_statement'', Start_line (Some 7), End_line (Some 9),
      Code_snippet, Snippet ''    if (x > 0) {      x = 2;    }''] \<and>
   \<not> node_contains_line (Node ''program'' (2, 0) (9, 1) []) 1 \<and>
   find_scope_within 997 (Node ''program'' (2, 0) (9, 1) []) 1 = Inr no_scope \<and>
   exit_code (main (env_with (Node ''program'' (2, 0) (9, 1) [])) ''A.java'' 1) = 0 \<and>
   printed (main (env_with (Node ''program'' (2, 0) (9, 1) [])) ''A.java'' 1) =
     [No_relevant_scope_found] \<and>
   frames (env_with (deep_tree 1000)) < frames_needed (deep_tree 1000) 2 \<and>
   exit_code (main (env_with (deep_tree 1000)) ''A.java'' 2) = 1"
proof -
  have m: "open_file (env_with example_tree) ''B.java'' = Missing"
    by (simp add: env_with_def)
  have r: "open_file (env_with t) ''A.java'' = Readable ''bytes'' example_lines" for t
    by (simp add: env_with_def)
  have n: "length example_lines = 20" by (simp add: example_lines_def)
  have g: "get_language (env_with t) \<and>
      get_parser (env_with t) = Some (\<lambda>code. if code = ''bytes'' then Some t else None)" for t
    by (simp add: env_with_def)
  have fr: "frames (env_with t) = 997" for t
    by (simp add: env_with_def)
  have o: "\<not> node_contains_line (Node ''program'' (2, 0) (9, 1) []) 1"
    by (simp add: node_contains_line_def)
  have w1: "find_scope_within 997 example_tree 8 =
     Inr \<lparr>scope_type = Some ''if_statement'', start_line = Some 7, end_line = Some 9\<rparr>"
  proof -
    have "frames_needed example_tree 8 \<le> 997"
      by (simp add: example_tree_def node_contains_line_def)
    then have "find_scope_within 997 example_tree 8 = find_scope example_tree 8"
      by (simp add: find_scope_within_def find_scope_def within_enough(1))
    then show ?thesis
      by (simp add: example_tree_def find_scope_def node_contains_line_def update_smallest_def
          current_scope_def no_scope_def)
  qed
  have w2: "find_scope_within 997 (Node ''program'' (2, 0) (9, 1) []) 1 = Inr no_scope"
  proof -
    have "frames_needed (Node ''program'' (2, 0) (9, 1) []) 1 \<le> 997"
      by (simp add: node_contains_line_def)
    then have "find_scope_within 997 (Node ''program'' (2, 0) (9, 1) []) 1 =
        find_scope (Node ''program'' (2, 0) (9, 1) []) 1"
      by (simp add: find_scope_within_def find_scope_def within_enough(1))
    then show ?thesis using o by (simp add: find_scope_outside)
  qed
  have d: "frames (env_with (deep_tree 1000)) < frames_needed (deep_tree 1000) 2"
    by (simp add: fr frames_needed_deep_tree)
  have s: "fst (display_result
        \<lparr>scope_type = Some ''if_statement'', start_line = Some 7, end_line = Some 9\<rparr>
        example_lines) =
     [Scope_type ''if_statement'', Start_line (Some 7), End_line (Some 9),
      Code_snippet, Snippet ''    if (x > 0) {      x = 2;    }'']"
    by (simp add: display_result_def py_slice_def slice_index_def example_lines_def)
  have s0: "fst (display_result no_scope example_lines) = [No_relevant_scope_found]"
    by (simp add: display_result_def no_scope_def)
  show ?thesis
    using exit_codes [where env = "env_with example_tree" and fp = "''B.java''" and L = 8]
      exit_codes [where env = "env_with example_tree" and fp = "''A.java''" and L = 0
        and code = "''bytes''" and lines = example_lines]
      exit_codes [where env = "env_with example_tree" and fp = "''A.java''" and L = 21
        and code = "''bytes''" and lines = example_lines]
      exit_codes [where env = "env_with example_tree" and fp = "''A.java''" and L = 8
        and code = "''bytes''" and lines = example_lines
        and parser = "\<lambda>code. if code = ''bytes'' then Some example_tree else None"
        and tree = example_tree
        and r = "\<lparr>scope_type = Some ''if_statement'', start_line = Some 7, end_line = Some 9\<rparr>"]
      exit_codes [where env = "env_with (Node ''program'' (2, 0) (9, 1) [])"
        and fp = "''A.java''" and L = 1 and code = "''bytes''" and lines = example_lines
        and parser = "\<lambda>code. if code = ''bytes'' then Some (Node ''program'' (2, 0) (9, 1) []) else None"
        and tree = "Node ''program'' (2, 0) (9, 1) []" and r = no_scope]
      exit_codes [where env = "env_with (deep_tree 1000)"
        and fp = "''A.java''" and L = 2 and code = "''bytes''" and lines = example_lines
        and parser = "\<lambda>code. if code = ''bytes'' then Some (deep_tree 1000) else None"
        and tree = "deep_tree 1000" and r = no_scope]
      m r n g fr o w1 w2 d s s0
    by simp
qed

end
